theory Spec2Isabelle
  imports Complex_Main "HOL-Library.Multiset"
begin

section \<open>Data model\<close>

text \<open>
  The dataclass \<open>Region\<close> of \<^verbatim>\<open>zkevm-worst-case.py\<close>.  Python integers are unbounded, so
  every numeric field is an \<open>int\<close>.  The field \<open>name\<close> is annotated \<open>str\<close>, but
  \<open>get_regions\<close> passes the circuit component of a configuration pair, which may be
  \<open>None\<close>; hence \<open>string option\<close>.
\<close>

record Region =
  name :: "string option"
  width :: int
  height :: int
  x :: int
  y :: int

text \<open>The constructor call \<open>Region(name, width, height)\<close>: \<open>x\<close> and \<open>y\<close> default to \<open>-1\<close>.\<close>

definition new_Region :: "string option \<Rightarrow> int \<Rightarrow> int \<Rightarrow> Region" where
  "new_Region nm w h = \<lparr>name = nm, width = w, height = h, x = - 1, y = - 1\<rparr>"

text \<open>The method \<open>Region.overlap\<close>.\<close>

definition overlap :: "Region \<Rightarrow> Region \<Rightarrow> bool" where
  "overlap self other \<longleftrightarrow>
     (x self \<le> x other \<and> x self + width self > x other) \<and>
     (y self \<le> y other \<and> y self + height self > y other)"

text \<open>The dataclass \<open>Point\<close>, the cursor of \<open>solve_v3\<close>.\<close>

datatype Point = Point (px: int) (py: int)

section \<open>Validator\<close>

text \<open>
  What the program writes to standard output while laying out and validating: one
  constructor per \<open>print\<close> statement of \<open>check_valid\<close>, \<open>solve_v1\<close> and \<open>solve_v3\<close>,
  carrying the regions the message formats.
\<close>

datatype printed =
    Region_over_height Region
  | Overlapping_regions Region Region
  | Invalid_solution

text \<open>First loop of \<open>check_valid\<close>: the first region with \<open>region.y + region.height > n\<close>.\<close>

fun first_over_height :: "int \<Rightarrow> Region list \<Rightarrow> Region option" where
  "first_over_height n [] = None"
| "first_over_height n (region # regions) =
     (if y region + height region > n then Some region
      else first_over_height n regions)"

text \<open>
  Inner loop of the second part, for a fixed \<open>regions[i]\<close> and \<open>j\<close> running over the
  later indices: the first \<open>regions[j]\<close> with \<open>regions[i].overlap(regions[j])\<close>.
\<close>

fun first_overlap_with :: "Region \<Rightarrow> Region list \<Rightarrow> Region option" where
  "first_overlap_with ri [] = None"
| "first_overlap_with ri (rj # rest) =
     (if overlap ri rj then Some rj else first_overlap_with ri rest)"

text \<open>Outer loop: \<open>i\<close> runs over the list, \<open>j\<close> over the indices after \<open>i\<close>.\<close>

fun first_overlap :: "Region list \<Rightarrow> (Region \<times> Region) option" where
  "first_overlap [] = None"
| "first_overlap (ri # rest) =
     (case first_overlap_with ri rest of
        Some rj \<Rightarrow> Some (ri, rj)
      | None \<Rightarrow> first_overlap rest)"

text \<open>
  \<open>check_valid(k, regions)\<close>: the returned boolean together with the lines printed.
  Each violation found returns at once, after printing its message.  The exponent \<open>k\<close>
  is a natural number (\<open>main\<close> passes 26), so that \<open>n = 2**k\<close> is an integer.
\<close>

definition check_valid :: "nat \<Rightarrow> Region list \<Rightarrow> bool \<times> printed list" where
  "check_valid k regions =
     (let n = 2 ^ k in
      case first_over_height n regions of
        Some region \<Rightarrow> (False, [Region_over_height region])
      | None \<Rightarrow>
          (case first_overlap regions of
             Some (ri, rj) \<Rightarrow> (False, [Overlapping_regions ri rj])
           | None \<Rightarrow> (True, [])))"

section \<open>Layout strategies\<close>

text \<open>
  The loop of \<open>solve_v1\<close>; the first argument is the running variable \<open>width\<close>.
  The regions of the list are distinct objects (\<open>get_regions\<close> builds a fresh one per
  entry and \<open>main\<close> passes a deep copy), so the in-place assignment to \<open>regions[i]\<close>
  is the update of the \<open>i\<close>-th element.
\<close>

fun solve_v1_loop :: "int \<Rightarrow> Region list \<Rightarrow> Region list" where
  "solve_v1_loop w [] = []"
| "solve_v1_loop w (region # regions) =
     region\<lparr>y := 0, x := w\<rparr> # solve_v1_loop (w + width region) regions"

text \<open>\<open>solve_v1(k, regions)\<close>: the returned list and the lines printed.\<close>

definition solve_v1 :: "nat \<Rightarrow> Region list \<Rightarrow> Region list \<times> printed list" where
  "solve_v1 k regions =
     (let placed = solve_v1_loop 0 regions;
          (valid, out) = check_valid k placed
      in (placed, if \<not> valid then out @ [Invalid_solution] else out))"

text \<open>
  The loop of \<open>solve_v3\<close>; the arguments are \<open>n\<close>, the cursor \<open>position\<close> and the
  running variable \<open>width\<close>.
\<close>

fun solve_v3_loop :: "int \<Rightarrow> Point \<Rightarrow> int \<Rightarrow> Region list \<Rightarrow> Region list" where
  "solve_v3_loop n position w [] = []"
| "solve_v3_loop n position w (region # regions) =
     (if py position + height region < n then
        region\<lparr>y := py position, x := px position\<rparr> #
          solve_v3_loop n
            (Point (px position) (py position + height region))
            (if w < width region then width region else w)
            regions
      else
        region\<lparr>y := 0, x := px position + w\<rparr> #
          solve_v3_loop n
            (Point (px position + w) (height region))
            (width region)
            regions)"

text \<open>
  \<open>sorted(regions, key=lambda r: -r.height)\<close>.  Python's \<open>sorted\<close> is a stable sort
  by ascending key; the result of a stable sort is determined by the input and the
  key, and \<open>sort_key\<close> (insertion from the right, each element going in front of the
  equal keys already there) computes it.
\<close>

definition sorted_by_height :: "Region list \<Rightarrow> Region list" where
  "sorted_by_height regions = sort_key (\<lambda>r. - height r) regions"

text \<open>\<open>solve_v3(k, regions)\<close>: the returned list and the lines printed.\<close>

definition solve_v3 :: "nat \<Rightarrow> Region list \<Rightarrow> Region list \<times> printed list" where
  "solve_v3 k regions =
     (let n = 2 ^ k;
          placed = solve_v3_loop n (Point 0 0) 0 (sorted_by_height regions);
          (valid, out) = check_valid k placed
      in (placed, if \<not> valid then out @ [Invalid_solution] else out))"

section \<open>Usage estimator\<close>

text \<open>The loop of \<open>get_advice\<close>; the first argument is the running maximum \<open>advice\<close>.\<close>

fun get_advice_loop :: "int \<Rightarrow> Region list \<Rightarrow> int" where
  "get_advice_loop advice [] = advice"
| "get_advice_loop advice (region # regions) =
     (let max_col = x region + width region
      in get_advice_loop (if max_col > advice then max_col else advice) regions)"

definition get_advice :: "Region list \<Rightarrow> int" where
  "get_advice regions = get_advice_loop 0 regions"

text \<open>The loop of \<open>cell_usage\<close>; the first argument is the running sum \<open>used_cells\<close>.\<close>

fun used_cells_loop :: "int \<Rightarrow> Region list \<Rightarrow> int" where
  "used_cells_loop used_cells [] = used_cells"
| "used_cells_loop used_cells (region # regions) =
     used_cells_loop (used_cells + width region * height region) regions"

text \<open>\<open>cell_usage(k, regions)\<close> returns the pair \<open>(area, used_cells)\<close>.\<close>

definition cell_usage :: "nat \<Rightarrow> Region list \<Rightarrow> int \<times> int" where
  "cell_usage k regions =
     (let w = get_advice regions;
          h = 2 ^ k;
          area = w * h
      in (area, used_cells_loop 0 regions))"

text \<open>
  The exceptions the modelled code can raise: a dictionary lookup with a missing key and
  the division \<open>used_cells / area\<close> in \<open>main\<close>.
\<close>

datatype error = KeyError "string option" | ZeroDivisionError

text \<open>
  The expression \<open>used_cells / area * 100\<close> that \<open>main\<close> prints after each call of
  \<open>cell_usage\<close>.  Python's \<open>/\<close> on integers raises \<open>ZeroDivisionError\<close> for a zero
  divisor.  The quotient is kept exact here; the rounding of the floating-point
  division is not modelled.
\<close>

definition area_usage :: "nat \<Rightarrow> Region list \<Rightarrow> error + rat" where
  "area_usage k regions =
     (let (area, used_cells) = cell_usage k regions
      in if area = 0 then Inl ZeroDivisionError
         else Inr (of_int used_cells / of_int area * 100))"

section \<open>Region catalogue\<close>

text \<open>The configuration tables, in the order and with the values of the source.\<close>

definition circuits_tables :: "(string option \<times> string option) list" where
  "circuits_tables =
     [(Some ''evm'', None),
      (Some ''bytecode'', Some ''bytecode''),
      (Some ''copy'', Some ''copy''),
      (Some ''exp'', Some ''exp''),
      (Some ''keccak'', Some ''keccak''),
      (Some ''mpt'', Some ''mpt''),
      (Some ''rw'', Some ''rw''),
      (Some ''tx'', Some ''tx''),
      (Some ''sig'', Some ''sig''),
      (Some ''ecc'', None),
      (Some ''pi'', None),
      (None, Some ''block''),
      (None, Some ''u8''),
      (None, Some ''u10''),
      (None, Some ''u16'')]"

text \<open>
  \<open>rows_per_gas\<close>: a value is \<open>None\<close>, the integer \<open>0\<close> or a float literal, kept as the
  rational the literal denotes.
\<close>

definition rows_per_gas :: "string \<rightharpoonup> rat option" where
  "rows_per_gas =
     map_of
       [(''evm'', Some (45 / 10)),
        (''bytecode'', Some (947 / 100)),
        (''copy'', Some (213 / 10)),
        (''exp'', Some (109 / 100)),
        (''keccak'', Some (905 / 10)),
        (''mpt'', Some (95 / 100)),
        (''rw'', Some (1133 / 100)),
        (''tx'', Some (873 / 100)),
        (''ecc'', None),
        (''pi'', Some (33 / 100)),
        (''block'', Some 0),
        (''sig'', None),
        (''u8'', Some 0),
        (''u10'', Some 0),
        (''u16'', Some 0)]"

definition min_rows :: "string \<rightharpoonup> int" where
  "min_rows =
     map_of
       [(''tx'', 295188),
        (''block'', 264),
        (''u8'', 2 ^ 8),
        (''u10'', 2 ^ 10),
        (''u16'', 2 ^ 16)]"

definition adv_cols :: "string \<rightharpoonup> int" where
  "adv_cols =
     map_of
       [(''tx_table'', 4),
        (''wd_table'', 5),
        (''rw_table'', 14),
        (''mpt_table'', 12),
        (''bytecode_table'', 6),
        (''block_table'', 2),
        (''copy_table'', 12),
        (''exp_table'', 5),
        (''keccak_table'', 5),
        (''sig_table'', 9),
        (''u8_table'', 0),
        (''u10_table'', 0),
        (''u16_table'', 0),
        (''keccak'', 198),
        (''pi'', 10),
        (''tx'', 6),
        (''bytecode'', 6),
        (''copy'', 14),
        (''rw'', 49),
        (''exp'', 10),
        (''evm'', 131),
        (''mpt'', 144),
        (''ecc'', 0),
        (''sig'', 0)]"

text \<open>Truth value of an optional string: \<open>None\<close> and the empty string are false.\<close>

definition truthy :: "string option \<Rightarrow> bool" where
  "truthy s = (case s of None \<Rightarrow> False | Some t \<Rightarrow> t \<noteq> [])"

text \<open>Truth value of an entry of \<open>rows_per_gas\<close>: \<open>None\<close> and zero are false.\<close>

definition truthy_ratio :: "rat option \<Rightarrow> bool" where
  "truthy_ratio v = (case v of None \<Rightarrow> False | Some q \<Rightarrow> q \<noteq> 0)"

text \<open>The subscript \<open>d[key]\<close>: a missing key raises \<open>KeyError\<close>.\<close>

definition dict_get :: "(string \<rightharpoonup> 'v) \<Rightarrow> string option \<Rightarrow> error + 'v" where
  "dict_get d key =
     (case key of
        None \<Rightarrow> Inl (KeyError None)
      | Some s \<Rightarrow> (case d s of None \<Rightarrow> Inl (KeyError key) | Some v \<Rightarrow> Inr v))"

text \<open>The formatted key \<open>f"{table}_table"\<close>, built only for a true \<open>table\<close>.\<close>

definition table_key :: "string option \<Rightarrow> string option" where
  "table_key table = map_option (\<lambda>t. t @ ''_table'') table"

text \<open>
  One iteration of the loop of \<open>get_regions\<close>, returning the regions it appends (none
  after \<open>continue\<close>).  The product \<open>gas * rows_gas\<close> is a floating-point product whenever
  the ratio is a float, and floating-point arithmetic is not modelled: the function
  \<open>int_mul\<close> stands for \<open>int(gas * rows_gas)\<close> and is a parameter, as is the type of
  \<open>gas\<close>, so that what is proved holds whatever the rounding.
\<close>

definition get_regions_step ::
  "('g \<Rightarrow> rat \<Rightarrow> int) \<Rightarrow> 'g \<Rightarrow> string option \<times> string option \<Rightarrow> error + Region list" where
  "get_regions_step int_mul gas pair =
     (let (circuit, table) = pair in
      case (if truthy circuit then dict_get adv_cols circuit else Inr 0) of
        Inl e \<Rightarrow> Inl e
      | Inr wc \<Rightarrow>
      (case (if truthy table then dict_get adv_cols (table_key table) else Inr 0) of
        Inl e \<Rightarrow> Inl e
      | Inr wt \<Rightarrow>
      (let w = 0 + wc + wt;
           nm = (if \<not> truthy circuit then table else circuit)
       in case dict_get rows_per_gas nm of
            Inl e \<Rightarrow> Inl e
          | Inr rows_gas \<Rightarrow>
              if \<not> truthy_ratio rows_gas then Inr []
              else
                (let rows = int_mul gas (the rows_gas);
                     rows' = (case dict_get min_rows nm of
                                Inl e \<Rightarrow> rows
                              | Inr m \<Rightarrow> max rows m)
                 in Inr [new_Region circuit w rows']))))"

text \<open>The loop of \<open>get_regions\<close> over the configuration pairs, with the list built so far.\<close>

fun get_regions_loop ::
  "('g \<Rightarrow> rat \<Rightarrow> int) \<Rightarrow> 'g \<Rightarrow> (string option \<times> string option) list \<Rightarrow> Region list
     \<Rightarrow> error + Region list" where
  "get_regions_loop int_mul gas [] regions = Inr regions"
| "get_regions_loop int_mul gas (pair # pairs) regions =
     (case get_regions_step int_mul gas pair of
        Inl e \<Rightarrow> Inl e
      | Inr new \<Rightarrow> get_regions_loop int_mul gas pairs (regions @ new))"

definition get_regions :: "('g \<Rightarrow> rat \<Rightarrow> int) \<Rightarrow> 'g \<Rightarrow> error + Region list" where
  "get_regions int_mul gas = get_regions_loop int_mul gas circuits_tables []"

text \<open>
  An instance of \<open>int_mul\<close> for concrete evaluation: the exact product of a rational
  \<open>gas\<close> and the ratio, truncated towards zero as \<open>int\<close> does.
\<close>

definition exact_int_mul :: "rat \<Rightarrow> rat \<Rightarrow> int" where
  "exact_int_mul gas q = (if gas * q < 0 then \<lceil>gas * q\<rceil> else \<lfloor>gas * q\<rfloor>)"

section \<open>Notions of the specification\<close>

text \<open>
  The intersection test as the specification words it (section 4.4): two half-open boxes
  \<open>[x, x+width) \<times> [y, y+height)\<close> intersect iff
  \<open>max(x1,x2) < min(x1+w1, x2+w2)\<close> and likewise for \<open>y\<close>.
\<close>

definition boxes_intersect :: "Region \<Rightarrow> Region \<Rightarrow> bool" where
  "boxes_intersect r1 r2 \<longleftrightarrow>
     max (x r1) (x r2) < min (x r1 + width r1) (x r2 + width r2) \<and>
     max (y r1) (y r2) < min (y r1 + height r1) (y r2 + height r2)"

text \<open>What a layout strategy leaves untouched in a region: name, width and height.\<close>

definition dims :: "Region \<Rightarrow> string option \<times> int \<times> int" where
  "dims r = (name r, width r, height r)"

text \<open>
  The name \<open>get_regions\<close> looks a configuration pair up by: the circuit, or the table when
  the circuit is absent.
\<close>

definition pair_name :: "string option \<times> string option \<Rightarrow> string option" where
  "pair_name pair = (if truthy (fst pair) then fst pair else snd pair)"

text \<open>
  The rows-per-gas ratio of a pair: \<open>None\<close> when its name has no entry, \<open>Some None\<close> when
  the entry is \<open>None\<close> (no ratio defined), \<open>Some (Some q)\<close> for the ratio \<open>q\<close>.
\<close>

definition pair_ratio :: "string option \<times> string option \<Rightarrow> rat option option" where
  "pair_ratio pair = Option.bind (pair_name pair) rows_per_gas"

text \<open>The advice columns of an optional circuit or table key: zero when absent.\<close>

definition adv_of :: "string option \<Rightarrow> int" where
  "adv_of key = (case Option.bind key adv_cols of None \<Rightarrow> 0 | Some c \<Rightarrow> c)"

text \<open>
  The region the contract of the catalogue (section 4.1) describes for a pair of ratio
  \<open>q\<close>: named by the circuit, as wide as the advice columns of circuit and table
  together, as high as the product of gas and ratio, raised to the floor of the name
  when \<open>min_rows\<close> has one.
\<close>

definition catalogue_region ::
  "('g \<Rightarrow> rat \<Rightarrow> int) \<Rightarrow> 'g \<Rightarrow> string option \<times> string option \<Rightarrow> rat \<Rightarrow> Region" where
  "catalogue_region int_mul gas pair q =
     \<lparr>name = fst pair,
      width = adv_of (fst pair) + adv_of (table_key (snd pair)),
      height = (case Option.bind (pair_name pair) min_rows of
                  None \<Rightarrow> int_mul gas q
                | Some m \<Rightarrow> max (int_mul gas q) m),
      x = - 1, y = - 1\<rparr>"

section \<open>The layout strategies on concrete inputs\<close>

lemma fst_solve_v1: "fst (solve_v1 k regions) = solve_v1_loop 0 regions"
  by (simp add: solve_v1_def Let_def split: prod.splits)

lemma fst_solve_v3:
  "fst (solve_v3 k regions) = solve_v3_loop (2 ^ k) (Point 0 0) 0 (sorted_by_height regions)"
  by (simp add: solve_v3_def Let_def split: prod.splits)

text \<open>
  Claim C8.  With \<open>k = 3\<close> (table height 8) and the catalogue order \<open>A(w=2,h=3)\<close>,
  \<open>B(w=2,h=3)\<close>, \<open>C(w=1,h=2)\<close>, \<open>solve_v3\<close> returns \<open>A\<close> at \<open>(0,0)\<close>, \<open>B\<close> at \<open>(0,3)\<close> and
  \<open>C\<close> at \<open>(2,0)\<close>, of occupied width 3, and \<open>solve_v1\<close> returns \<open>A\<close> at \<open>(0,0)\<close>, \<open>B\<close> at
  \<open>(2,0)\<close> and \<open>C\<close> at \<open>(4,0)\<close>, of occupied width 5.  Neither run prints anything.
\<close>

theorem C8_concrete_scenario:
  "solve_v3 3 [new_Region (Some ''A'') 2 3, new_Region (Some ''B'') 2 3,
               new_Region (Some ''C'') 1 2] =
     ([\<lparr>name = Some ''A'', width = 2, height = 3, x = 0, y = 0\<rparr>,
       \<lparr>name = Some ''B'', width = 2, height = 3, x = 0, y = 3\<rparr>,
       \<lparr>name = Some ''C'', width = 1, height = 2, x = 2, y = 0\<rparr>], []) \<and>
   get_advice (fst (solve_v3 3 [new_Region (Some ''A'') 2 3, new_Region (Some ''B'') 2 3,
                                new_Region (Some ''C'') 1 2])) = 3 \<and>
   solve_v1 3 [new_Region (Some ''A'') 2 3, new_Region (Some ''B'') 2 3,
               new_Region (Some ''C'') 1 2] =
     ([\<lparr>name = Some ''A'', width = 2, height = 3, x = 0, y = 0\<rparr>,
       \<lparr>name = Some ''B'', width = 2, height = 3, x = 2, y = 0\<rparr>,
       \<lparr>name = Some ''C'', width = 1, height = 2, x = 4, y = 0\<rparr>], []) \<and>
   get_advice (fst (solve_v1 3 [new_Region (Some ''A'') 2 3, new_Region (Some ''B'') 2 3,
                                new_Region (Some ''C'') 1 2])) = 5"
  by (simp add: solve_v3_def solve_v1_def new_Region_def sorted_by_height_def check_valid_def
      overlap_def get_advice_def)

text \<open>
  Claim C6.  The comparison of \<open>solve_v3\<close> against the table height is strict: a region
  with \<open>position.y + height = n\<close> is not stacked but opens a new shelf, at
  \<open>(position.x + width, 0)\<close>, and the loop goes on from the cursor
  \<open>(position.x + width, height)\<close> with the region's width as shelf width.  With table
  height 8 and the regions \<open>A(h=5)\<close>, \<open>B(h=3)\<close>, whatever their names and widths, \<open>A\<close> is
  placed at \<open>(0,0)\<close> and \<open>B\<close> at \<open>y = 0\<close> on a new shelf whose \<open>x\<close> is the shelf width left
  by \<open>A\<close> (the width of \<open>A\<close>, or 0 if that is not positive), not at \<open>y = 5\<close>.
\<close>

theorem C6_strict_comparison:
  "(py position + height region = n \<longrightarrow>
      solve_v3_loop n position w (region # regions) =
        region\<lparr>y := 0, x := px position + w\<rparr> #
          solve_v3_loop n (Point (px position + w) (height region)) (width region) regions) \<and>
   fst (solve_v3 3 [new_Region na wa 5, new_Region nb wb 3]) =
     [\<lparr>name = na, width = wa, height = 5, x = 0, y = 0\<rparr>,
      \<lparr>name = nb, width = wb, height = 3, x = (if 0 < wa then wa else 0), y = 0\<rparr>]"
  by (simp add: fst_solve_v3 new_Region_def sorted_by_height_def)

theorem C6_strict_comparison_witness:
  "py (Point 0 5) + height (new_Region (Some ''B'') 4 3) = 8 \<and>
   solve_v3_loop 8 (Point 0 5) 7 [new_Region (Some ''B'') 4 3] =
     [\<lparr>name = Some ''B'', width = 4, height = 3, x = 7, y = 0\<rparr>]"
  using C6_strict_comparison [of "Point 0 5" "new_Region (Some ''B'') 4 3" 8 7 "[]"]
  by (simp add: new_Region_def)

section \<open>Stability of the sort\<close>

lemma solve_v3_loop_filter_dims:
  "map dims (filter (\<lambda>r. height r = h) (solve_v3_loop n position w regions)) =
   map dims (filter (\<lambda>r. height r = h) regions)"
  by (induction regions arbitrary: position w) (simp_all add: dims_def)

lemma sorted_by_height_stable:
  "filter (\<lambda>r. height r = h) (sorted_by_height regions) = filter (\<lambda>r. height r = h) regions"
  using sort_key_stable [of "\<lambda>r. - height r" "- h" regions]
  by (simp add: sorted_by_height_def)

text \<open>
  Claim C7.  The sort of \<open>solve_v3\<close> is stable: for every height \<open>h\<close>, the regions of
  height \<open>h\<close> stand in the sorted list in the order they have in the input, and so they
  do in the returned placement (compared by name, width and height, which placing
  leaves alone).
\<close>

theorem C7_stable_sort:
  "filter (\<lambda>r. height r = h) (sorted_by_height regions) = filter (\<lambda>r. height r = h) regions \<and>
   map dims (filter (\<lambda>r. height r = h) (fst (solve_v3 k regions))) =
     map dims (filter (\<lambda>r. height r = h) regions)"
  by (simp add: fst_solve_v3 solve_v3_loop_filter_dims sorted_by_height_stable)

section \<open>The overlap test\<close>

text \<open>
  Claim C1.  The claim is that the validator reports an overlap exactly when the two
  half-open boxes intersect, symmetrically.  \<open>Region.overlap\<close> tests whether the corner
  \<open>(x, y)\<close> of the second region lies in the box of the first, and \<open>check_valid\<close> calls
  it with the earlier region first only.  For \<open>a = (x=1, y=0, w=1, h=1)\<close> followed by
  \<open>b = (x=0, y=0, w=2, h=1)\<close> the boxes share the cell \<open>(1,0)\<close>, yet \<open>a.overlap(b)\<close> is
  false while \<open>b.overlap(a)\<close> is true, and \<open>check_valid\<close> returns \<open>True\<close> and prints
  nothing.
\<close>

theorem C1_overlap_misses_intersection:
  "boxes_intersect \<lparr>name = Some ''a'', width = 1, height = 1, x = 1, y = 0\<rparr>
                   \<lparr>name = Some ''b'', width = 2, height = 1, x = 0, y = 0\<rparr> \<and>
   \<not> overlap \<lparr>name = Some ''a'', width = 1, height = 1, x = 1, y = 0\<rparr>
             \<lparr>name = Some ''b'', width = 2, height = 1, x = 0, y = 0\<rparr> \<and>
   overlap \<lparr>name = Some ''b'', width = 2, height = 1, x = 0, y = 0\<rparr>
           \<lparr>name = Some ''a'', width = 1, height = 1, x = 1, y = 0\<rparr> \<and>
   check_valid 3 [\<lparr>name = Some ''a'', width = 1, height = 1, x = 1, y = 0\<rparr>,
                  \<lparr>name = Some ''b'', width = 2, height = 1, x = 0, y = 0\<rparr>] = (True, [])"
  by (simp add: boxes_intersect_def overlap_def check_valid_def)

section \<open>The validator\<close>


lemma first_over_height_None:
  "first_over_height n regions = None \<longleftrightarrow> (\<forall>r\<in>set regions. y r + height r \<le> n)"
  by (induction regions) auto

lemma first_over_height_Some:
  "first_over_height n regions = Some r \<Longrightarrow>
     \<exists>i<length regions. regions ! i = r \<and> y r + height r > n \<and>
       (\<forall>i'<i. y (regions ! i') + height (regions ! i') \<le> n)"
proof (induction regions)
  case Nil
  then show ?case by simp
next
  case (Cons a regions)
  show ?case
  proof (cases "y a + height a > n")
    case True
    with Cons.prems have "a = r" by simp
    with True have "(a # regions) ! 0 = r \<and> y r + height r > n" by simp
    then show ?thesis by (intro exI [of _ 0]) simp
  next
    case False
    with Cons.prems have "first_over_height n regions = Some r" by simp
    from Cons.IH [OF this] obtain i where i: "i < length regions" "regions ! i = r"
      "y r + height r > n" "\<forall>i'<i. y (regions ! i') + height (regions ! i') \<le> n"
      by blast
    have "\<forall>i'<Suc i. y ((a # regions) ! i') + height ((a # regions) ! i') \<le> n"
    proof (intro allI impI)
      fix i' assume "i' < Suc i"
      then show "y ((a # regions) ! i') + height ((a # regions) ! i') \<le> n"
        using False i(4) by (cases i') auto
    qed
    with i show ?thesis by (intro exI [of _ "Suc i"]) simp
  qed
qed

lemma first_overlap_with_None:
  "first_overlap_with ri rest = None \<longleftrightarrow> (\<forall>rj\<in>set rest. \<not> overlap ri rj)"
  by (induction rest) auto

lemma first_overlap_with_Some:
  "first_overlap_with ri rest = Some rj \<Longrightarrow>
     \<exists>j<length rest. rest ! j = rj \<and> overlap ri rj \<and> (\<forall>j'<j. \<not> overlap ri (rest ! j'))"
proof (induction rest)
  case Nil
  then show ?case by simp
next
  case (Cons a rest)
  show ?case
  proof (cases "overlap ri a")
    case True
    with Cons.prems have "a = rj" by simp
    with True have "(a # rest) ! 0 = rj \<and> overlap ri rj" by simp
    then show ?thesis by (intro exI [of _ 0]) simp
  next
    case False
    with Cons.prems have "first_overlap_with ri rest = Some rj" by simp
    from Cons.IH [OF this] obtain j where j: "j < length rest" "rest ! j = rj"
      "overlap ri rj" "\<forall>j'<j. \<not> overlap ri (rest ! j')"
      by blast
    have "\<forall>j'<Suc j. \<not> overlap ri ((a # rest) ! j')"
    proof (intro allI impI)
      fix j' assume "j' < Suc j"
      then show "\<not> overlap ri ((a # rest) ! j')"
        using False j(4) by (cases j') auto
    qed
    with j show ?thesis by (intro exI [of _ "Suc j"]) simp
  qed
qed

lemma first_overlap_None_sorted_wrt:
  "first_overlap regions = None \<longleftrightarrow> sorted_wrt (\<lambda>a b. \<not> overlap a b) regions"
proof (induction regions)
  case Nil
  show ?case by simp
next
  case (Cons a rest)
  show ?case
  proof (cases "first_overlap_with a rest")
    case None
    with Cons.IH show ?thesis by (simp add: first_overlap_with_None [symmetric])
  next
    case (Some b)
    then have "\<not> (\<forall>rj\<in>set rest. \<not> overlap a rj)"
      by (simp add: first_overlap_with_None [symmetric])
    with Some show ?thesis by simp
  qed
qed

lemma first_overlap_None:
  "first_overlap regions = None \<longleftrightarrow>
     (\<forall>i j. i < j \<and> j < length regions \<longrightarrow> \<not> overlap (regions ! i) (regions ! j))"
  by (auto simp: first_overlap_None_sorted_wrt sorted_wrt_iff_nth_less)

lemma first_overlap_Some:
  "first_overlap regions = Some (ri, rj) \<Longrightarrow>
     \<exists>i j. i < j \<and> j < length regions \<and> regions ! i = ri \<and> regions ! j = rj \<and>
       overlap ri rj \<and>
       (\<forall>i' j'. i' < j' \<and> j' < length regions \<and> (i' < i \<or> (i' = i \<and> j' < j)) \<longrightarrow>
          \<not> overlap (regions ! i') (regions ! j'))"
proof (induction regions)
  case Nil
  then show ?case by simp
next
  case (Cons a rest)
  show ?case
  proof (cases "first_overlap_with a rest")
    case (Some b)
    with Cons.prems have eq: "a = ri" "b = rj" by simp_all
    from first_overlap_with_Some [OF Some] obtain j where j: "j < length rest"
      "rest ! j = b" "overlap a b" "\<forall>j'<j. \<not> overlap a (rest ! j')"
      by blast
    have "\<forall>i' j'. i' < j' \<and> j' < length (a # rest) \<and> (i' < 0 \<or> (i' = 0 \<and> j' < Suc j)) \<longrightarrow>
            \<not> overlap ((a # rest) ! i') ((a # rest) ! j')"
    proof (intro allI impI)
      fix i' j'
      assume h: "i' < j' \<and> j' < length (a # rest) \<and> (i' < 0 \<or> (i' = 0 \<and> j' < Suc j))"
      then obtain j'' where "j' = Suc j''" "j'' < j" "i' = 0" by (cases j') auto
      with j(4) show "\<not> overlap ((a # rest) ! i') ((a # rest) ! j')" by simp
    qed
    with j eq show ?thesis
      by (intro exI [of _ 0] exI [of _ "Suc j"]) simp
  next
    case None
    with Cons.prems have "first_overlap rest = Some (ri, rj)" by simp
    from Cons.IH [OF this] obtain i j where ij: "i < j" "j < length rest" "rest ! i = ri"
      "rest ! j = rj" "overlap ri rj"
      "\<forall>i' j'. i' < j' \<and> j' < length rest \<and> (i' < i \<or> (i' = i \<and> j' < j)) \<longrightarrow>
          \<not> overlap (rest ! i') (rest ! j')"
      by blast
    from None have a: "\<forall>b\<in>set rest. \<not> overlap a b" by (simp add: first_overlap_with_None)
    have "\<forall>i' j'. i' < j' \<and> j' < length (a # rest) \<and>
            (i' < Suc i \<or> (i' = Suc i \<and> j' < Suc j)) \<longrightarrow>
            \<not> overlap ((a # rest) ! i') ((a # rest) ! j')"
    proof (intro allI impI)
      fix i' j'
      assume h: "i' < j' \<and> j' < length (a # rest) \<and> (i' < Suc i \<or> (i' = Suc i \<and> j' < Suc j))"
      then obtain j'' where j'': "j' = Suc j''" "j'' < length rest" by (cases j') auto
      show "\<not> overlap ((a # rest) ! i') ((a # rest) ! j')"
      proof (cases i')
        case 0
        with j'' a show ?thesis by simp
      next
        case (Suc i'')
        with h j'' have "i'' < j'' \<and> j'' < length rest \<and> (i'' < i \<or> (i'' = i \<and> j'' < j))"
          by auto
        with ij(6) have "\<not> overlap (rest ! i'') (rest ! j'')" by blast
        with Suc j'' show ?thesis by simp
      qed
    qed
    with ij show ?thesis
      by (intro exI [of _ "Suc i"] exI [of _ "Suc j"]) simp
  qed
qed

lemma check_valid_fst:
  "fst (check_valid k regions) \<longleftrightarrow>
     first_over_height (2 ^ k) regions = None \<and> first_overlap regions = None"
  by (simp add: check_valid_def split: option.splits)

lemma check_valid_snd_over:
  "first_over_height (2 ^ k) regions = Some r \<Longrightarrow>
     snd (check_valid k regions) = [Region_over_height r]"
  by (simp add: check_valid_def)

lemma check_valid_snd_overlap:
  "first_over_height (2 ^ k) regions = None \<Longrightarrow> first_overlap regions = Some (ri, rj) \<Longrightarrow>
     snd (check_valid k regions) = [Overlapping_regions ri rj]"
  by (simp add: check_valid_def)

lemma check_valid_snd_ok:
  "first_over_height (2 ^ k) regions = None \<Longrightarrow> first_overlap regions = None \<Longrightarrow>
     snd (check_valid k regions) = []"
  by (simp add: check_valid_def)

text \<open>
  Claim C3.  The claim is that the validator enumerates every violation.  It does not:
  \<open>check_valid\<close> returns at the first violation it meets.  What holds is this.  For
  every \<open>k\<close> and every region list \<open>check_valid\<close> returns a verdict (it is a total
  function: nothing in it can raise), and the verdict is \<open>True\<close> exactly when no region
  has \<open>y + height > 2^k\<close> and no pair \<open>i < j\<close> has \<open>regions[i].overlap(regions[j])\<close>.
  With the verdict \<open>True\<close> nothing is printed.  With the verdict \<open>False\<close> exactly one
  diagnostic is printed, that of the first violation in the order of the loops: the
  first region over the height bound if there is one, and otherwise the first pair, in
  the order of \<open>(i, j)\<close>, that \<open>overlap\<close> flags.
\<close>

theorem C3_check_valid_first_violation:
  "(fst (check_valid k regions) \<longleftrightarrow>
      (\<forall>r\<in>set regions. y r + height r \<le> 2 ^ k) \<and>
      (\<forall>i j. i < j \<and> j < length regions \<longrightarrow> \<not> overlap (regions ! i) (regions ! j))) \<and>
   (fst (check_valid k regions) \<longrightarrow> snd (check_valid k regions) = []) \<and>
   (\<not> fst (check_valid k regions) \<longrightarrow>
      (\<exists>i<length regions.
          snd (check_valid k regions) = [Region_over_height (regions ! i)] \<and>
          y (regions ! i) + height (regions ! i) > 2 ^ k \<and>
          (\<forall>i'<i. y (regions ! i') + height (regions ! i') \<le> 2 ^ k)) \<or>
      ((\<forall>r\<in>set regions. y r + height r \<le> 2 ^ k) \<and>
       (\<exists>i j. i < j \<and> j < length regions \<and>
          snd (check_valid k regions) = [Overlapping_regions (regions ! i) (regions ! j)] \<and>
          overlap (regions ! i) (regions ! j) \<and>
          (\<forall>i' j'. i' < j' \<and> j' < length regions \<and> (i' < i \<or> (i' = i \<and> j' < j)) \<longrightarrow>
             \<not> overlap (regions ! i') (regions ! j')))))"
proof (intro conjI impI)
  show "fst (check_valid k regions) \<longleftrightarrow>
      (\<forall>r\<in>set regions. y r + height r \<le> 2 ^ k) \<and>
      (\<forall>i j. i < j \<and> j < length regions \<longrightarrow> \<not> overlap (regions ! i) (regions ! j))"
    unfolding check_valid_fst first_over_height_None first_overlap_None ..
next
  assume "fst (check_valid k regions)"
  then show "snd (check_valid k regions) = []"
    by (simp add: check_valid_fst check_valid_snd_ok)
next
  assume bad: "\<not> fst (check_valid k regions)"
  show "(\<exists>i<length regions.
          snd (check_valid k regions) = [Region_over_height (regions ! i)] \<and>
          y (regions ! i) + height (regions ! i) > 2 ^ k \<and>
          (\<forall>i'<i. y (regions ! i') + height (regions ! i') \<le> 2 ^ k)) \<or>
      ((\<forall>r\<in>set regions. y r + height r \<le> 2 ^ k) \<and>
       (\<exists>i j. i < j \<and> j < length regions \<and>
          snd (check_valid k regions) = [Overlapping_regions (regions ! i) (regions ! j)] \<and>
          overlap (regions ! i) (regions ! j) \<and>
          (\<forall>i' j'. i' < j' \<and> j' < length regions \<and> (i' < i \<or> (i' = i \<and> j' < j)) \<longrightarrow>
             \<not> overlap (regions ! i') (regions ! j'))))"
  proof (cases "first_over_height (2 ^ k) regions")
    case (Some r)
    from first_over_height_Some [OF Some] obtain i where i: "i < length regions"
      "regions ! i = r" "y r + height r > 2 ^ k"
      "\<forall>i'<i. y (regions ! i') + height (regions ! i') \<le> 2 ^ k"
      by blast
    from check_valid_snd_over [OF Some] i show ?thesis by blast
  next
    case None
    with bad obtain ri rj where ov: "first_overlap regions = Some (ri, rj)"
      by (cases "first_overlap regions") (auto simp: check_valid_fst)
    from first_overlap_Some [OF ov] obtain i j where ij: "i < j" "j < length regions"
      "regions ! i = ri" "regions ! j = rj" "overlap ri rj"
      "\<forall>i' j'. i' < j' \<and> j' < length regions \<and> (i' < i \<or> (i' = i \<and> j' < j)) \<longrightarrow>
          \<not> overlap (regions ! i') (regions ! j')"
      by blast
    from None have h: "\<forall>r\<in>set regions. y r + height r \<le> 2 ^ k"
      by (simp add: first_over_height_None)
    from check_valid_snd_overlap [OF None ov] ij h show ?thesis by blast
  qed
qed

text \<open>
  Two regions over the height bound of \<open>2^0\<close>: only the first is reported, the second
  is not.
\<close>

theorem C3_all_violations_counterexample:
  "y \<lparr>name = Some ''b'', width = 1, height = 2, x = 1, y = 0\<rparr> +
     height \<lparr>name = Some ''b'', width = 1, height = 2, x = 1, y = 0\<rparr> > 2 ^ 0 \<and>
   check_valid 0 [\<lparr>name = Some ''a'', width = 1, height = 2, x = 0, y = 0\<rparr>,
                  \<lparr>name = Some ''b'', width = 1, height = 2, x = 1, y = 0\<rparr>] =
     (False, [Region_over_height \<lparr>name = Some ''a'', width = 1, height = 2, x = 0, y = 0\<rparr>])"
  by (simp add: check_valid_def)

theorem C3_check_valid_first_violation_witness:
  "\<not> fst (check_valid 0 [\<lparr>name = Some ''a'', width = 1, height = 2, x = 0, y = 0\<rparr>,
                  \<lparr>name = Some ''b'', width = 1, height = 2, x = 1, y = 0\<rparr>]) \<and>
   length (snd (check_valid 0 [\<lparr>name = Some ''a'', width = 1, height = 2, x = 0, y = 0\<rparr>,
                  \<lparr>name = Some ''b'', width = 1, height = 2, x = 1, y = 0\<rparr>])) = 1"
  using C3_check_valid_first_violation [of 0 "[\<lparr>name = Some ''a'', width = 1, height = 2, x = 0, y = 0\<rparr>,
                  \<lparr>name = Some ''b'', width = 1, height = 2, x = 1, y = 0\<rparr>]"]
  by (simp add: check_valid_def)

section \<open>The usage estimator\<close>

lemma get_advice_loop_ge_start: "advice \<le> get_advice_loop advice regions"
proof (induction regions arbitrary: advice)
  case Nil
  show ?case by simp
next
  case (Cons r regions)
  have "advice \<le> (if x r + width r > advice then x r + width r else advice)" by simp
  also have "\<dots> \<le> get_advice_loop (if x r + width r > advice then x r + width r else advice) regions"
    by (rule Cons.IH)
  finally show ?case by (simp add: Let_def)
qed

lemma get_advice_loop_ge_member:
  "r \<in> set regions \<Longrightarrow> x r + width r \<le> get_advice_loop advice regions"
proof (induction regions arbitrary: advice)
  case Nil
  then show ?case by simp
next
  case (Cons a regions)
  show ?case
  proof (cases "r = a")
    case True
    have "x a + width a \<le> (if x a + width a > advice then x a + width a else advice)" by simp
    also have "\<dots> \<le> get_advice_loop (if x a + width a > advice then x a + width a else advice) regions"
      by (rule get_advice_loop_ge_start)
    finally show ?thesis using True by (simp add: Let_def)
  next
    case False
    with Cons.prems have "r \<in> set regions" by simp
    from Cons.IH [OF this] show ?thesis by (simp add: Let_def)
  qed
qed

lemma get_advice_loop_attained:
  "get_advice_loop advice regions = advice \<or>
   (\<exists>r\<in>set regions. get_advice_loop advice regions = x r + width r)"
proof (induction regions arbitrary: advice)
  case Nil
  show ?case by simp
next
  case (Cons a regions)
  from Cons.IH [of "if x a + width a > advice then x a + width a else advice"]
  show ?case by (auto simp: Let_def split: if_splits)
qed

lemma get_advice_loop_le:
  "get_advice_loop advice regions \<le> b \<longleftrightarrow>
     advice \<le> b \<and> (\<forall>r\<in>set regions. x r + width r \<le> b)"
proof
  assume le: "get_advice_loop advice regions \<le> b"
  show "advice \<le> b \<and> (\<forall>r\<in>set regions. x r + width r \<le> b)"
  proof (intro conjI ballI)
    show "advice \<le> b" using get_advice_loop_ge_start [of advice regions] le by linarith
  next
    fix r assume "r \<in> set regions"
    from get_advice_loop_ge_member [OF this, of advice] le
    show "x r + width r \<le> b" by linarith
  qed
next
  assume "advice \<le> b \<and> (\<forall>r\<in>set regions. x r + width r \<le> b)"
  with get_advice_loop_attained [of advice regions]
  show "get_advice_loop advice regions \<le> b" by auto
qed

lemma get_advice_Max:
  "get_advice regions = Max (insert 0 ((\<lambda>r. x r + width r) ` set regions))"
proof (rule sym, rule Max_eqI)
  show "finite (insert 0 ((\<lambda>r. x r + width r) ` set regions))" by simp
next
  fix c assume "c \<in> insert 0 ((\<lambda>r. x r + width r) ` set regions)"
  then show "c \<le> get_advice regions"
    using get_advice_loop_ge_start [of 0 regions] get_advice_loop_ge_member [of _ regions 0]
    by (auto simp: get_advice_def)
next
  show "get_advice regions \<in> insert 0 ((\<lambda>r. x r + width r) ` set regions)"
    using get_advice_loop_attained [of 0 regions] by (auto simp: get_advice_def)
qed

lemma get_advice_Max_placed:
  assumes "regions \<noteq> []" and "\<forall>r\<in>set regions. 0 \<le> x r + width r"
  shows "get_advice regions = Max ((\<lambda>r. x r + width r) ` set regions)"
proof -
  let ?S = "(\<lambda>r. x r + width r) ` set regions"
  have fin: "finite ?S" by simp
  from assms(1) have ne: "?S \<noteq> {}" by simp
  have m: "Max (insert 0 ?S) = max 0 (Max ?S)" by (rule Max_insert [OF fin ne])
  from assms(1) obtain r where r: "r \<in> set regions" by (cases regions) auto
  then have "x r + width r \<in> ?S" by (rule imageI)
  then have "x r + width r \<le> Max ?S" by (rule Max_ge [OF fin])
  moreover from assms(2) r have "0 \<le> x r + width r" by (rule bspec)
  ultimately have "0 \<le> Max ?S" by linarith
  then have "max 0 (Max ?S) = Max ?S" by (rule max_absorb2)
  with m show ?thesis unfolding get_advice_Max by (rule trans)
qed

lemma used_cells_loop_sum:
  "used_cells_loop used_cells regions =
     used_cells + (\<Sum>r\<leftarrow>regions. width r * height r)"
  by (induction regions arbitrary: used_cells) simp_all

lemma cell_usage_eq:
  "cell_usage k regions = (get_advice regions * 2 ^ k, \<Sum>r\<leftarrow>regions. width r * height r)"
  by (simp add: cell_usage_def used_cells_loop_sum)

lemma get_advice_pos:
  assumes "regions \<noteq> []" and "\<forall>r\<in>set regions. 0 \<le> x r \<and> 0 < width r"
  shows "0 < get_advice regions"
proof -
  from assms(1) obtain r where r: "r \<in> set regions" by (cases regions) auto
  with assms(2) have "0 < x r + width r" by fastforce
  also have "\<dots> \<le> get_advice regions"
    using get_advice_loop_ge_member [OF r] by (simp add: get_advice_def)
  finally show ?thesis .
qed

text \<open>
  Claim C4.  The claim is that the utilization of the empty region set is 0 by
  convention, without a division by zero.  The code has no such convention: for the
  empty set \<open>get_advice\<close> is 0 and \<open>cell_usage\<close> returns area 0 and 0 used cells, and the
  division \<open>used_cells / area\<close> of the caller raises \<open>ZeroDivisionError\<close>.  The rest
  holds: for every region list the area is \<open>get_advice * 2^k\<close> and the used cells are
  the sum of \<open>width * height\<close>; for a non-empty list of placed regions (\<open>x \<ge> 0\<close>,
  \<open>width > 0\<close>) the occupied width \<open>get_advice\<close> is the maximum of \<open>x + width\<close>, and the
  utilization the caller prints is \<open>used_cells / area\<close>, as a percentage.
\<close>

theorem C4_estimator:
  "get_advice [] = 0 \<and> cell_usage k [] = (0, 0) \<and> area_usage k [] = Inl ZeroDivisionError \<and>
   cell_usage k regions = (get_advice regions * 2 ^ k, \<Sum>r\<leftarrow>regions. width r * height r) \<and>
   (regions \<noteq> [] \<and> (\<forall>r\<in>set regions. 0 \<le> x r \<and> 0 < width r) \<longrightarrow>
      get_advice regions = Max ((\<lambda>r. x r + width r) ` set regions) \<and>
      area_usage k regions =
        Inr (of_int (\<Sum>r\<leftarrow>regions. width r * height r) /
             of_int (get_advice regions * 2 ^ k) * 100))"
proof (intro conjI impI)
  show "get_advice [] = 0" by (simp add: get_advice_def)
  show "cell_usage k [] = (0, 0)" by (simp add: cell_usage_def get_advice_def)
  show "area_usage k [] = Inl ZeroDivisionError"
    by (simp add: area_usage_def cell_usage_def get_advice_def)
  show "cell_usage k regions =
      (get_advice regions * 2 ^ k, \<Sum>r\<leftarrow>regions. width r * height r)"
    by (rule cell_usage_eq)
next
  assume h: "regions \<noteq> [] \<and> (\<forall>r\<in>set regions. 0 \<le> x r \<and> 0 < width r)"
  then have "\<forall>r\<in>set regions. 0 \<le> x r + width r" by fastforce
  with h show "get_advice regions = Max ((\<lambda>r. x r + width r) ` set regions)"
    by (intro get_advice_Max_placed) simp_all
  from h have "0 < get_advice regions" by (intro get_advice_pos) simp_all
  then have "get_advice regions * 2 ^ k \<noteq> 0" by simp
  then show "area_usage k regions =
        Inr (of_int (\<Sum>r\<leftarrow>regions. width r * height r) /
             of_int (get_advice regions * 2 ^ k) * 100)"
    by (simp add: area_usage_def cell_usage_eq)
qed

theorem C4_estimator_witness:
  "get_advice [\<lparr>name = Some ''A'', width = 2, height = 3, x = 0, y = 0\<rparr>,
               \<lparr>name = Some ''B'', width = 2, height = 3, x = 2, y = 0\<rparr>] = 4 \<and>
   area_usage 3 [\<lparr>name = Some ''A'', width = 2, height = 3, x = 0, y = 0\<rparr>,
                 \<lparr>name = Some ''B'', width = 2, height = 3, x = 2, y = 0\<rparr>] = Inr (75 / 2)"
  using C4_estimator [of 3 "[\<lparr>name = Some ''A'', width = 2, height = 3, x = 0, y = 0\<rparr>,
               \<lparr>name = Some ''B'', width = 2, height = 3, x = 2, y = 0\<rparr>]"]
  by (simp add: get_advice_def)

text \<open>The empty region set: the division raises, it does not yield 0.\<close>

theorem C4_empty_counterexample:
  "cell_usage 3 [] = (0, 0) \<and> area_usage 3 [] = Inl ZeroDivisionError \<and>
   area_usage 3 [] \<noteq> Inr 0"
  by (simp add: area_usage_def cell_usage_def get_advice_def)

section \<open>Correctness of the layout strategies\<close>

lemma boxes_intersect_sym: "boxes_intersect a b \<longleftrightarrow> boxes_intersect b a"
  by (simp add: boxes_intersect_def max.commute min.commute)

lemma overlap_imp_boxes_intersect:
  "overlap a b \<Longrightarrow> 0 < width b \<Longrightarrow> 0 < height b \<Longrightarrow> boxes_intersect a b"
  by (simp add: overlap_def boxes_intersect_def)

lemma disjoint_nth:
  assumes "sorted_wrt (\<lambda>a b. \<not> boxes_intersect a b) rs"
    and "i < length rs" and "j < length rs" and "i \<noteq> j"
  shows "\<not> boxes_intersect (rs ! i) (rs ! j)"
proof (cases "i < j")
  case True
  with assms(1,3) show ?thesis by (simp add: sorted_wrt_iff_nth_less)
next
  case False
  with assms(4) have "j < i" by simp
  with assms(1,2) have "\<not> boxes_intersect (rs ! j) (rs ! i)"
    by (simp add: sorted_wrt_iff_nth_less)
  then show ?thesis by (simp add: boxes_intersect_sym [of "rs ! i"])
qed

subsection \<open>The single row of \<open>solve_v1\<close>\<close>

lemma solve_v1_loop_dims: "map dims (solve_v1_loop w rs) = map dims rs"
  by (induction rs arbitrary: w) (simp_all add: dims_def)

lemma solve_v1_loop_member:
  assumes "\<forall>r\<in>set rs. 0 \<le> width r" and "p \<in> set (solve_v1_loop w rs)"
  shows "w \<le> x p \<and> y p = 0 \<and> (\<exists>r\<in>set rs. width p = width r \<and> height p = height r)"
  using assms
proof (induction rs arbitrary: w)
  case Nil
  then show ?case by simp
next
  case (Cons a rs)
  from Cons.prems(2) consider "p = a\<lparr>y := 0, x := w\<rparr>" | "p \<in> set (solve_v1_loop (w + width a) rs)"
    by auto
  then show ?case
  proof cases
    case 1
    then show ?thesis by simp
  next
    case 2
    from Cons.prems(1) have "\<forall>r\<in>set rs. 0 \<le> width r" by simp
    from Cons.IH [OF this 2] Cons.prems(1) show ?thesis by auto
  qed
qed

lemma solve_v1_loop_disjoint:
  assumes "\<forall>r\<in>set rs. 0 \<le> width r"
  shows "sorted_wrt (\<lambda>a b. \<not> boxes_intersect a b) (solve_v1_loop w rs)"
  using assms
proof (induction rs arbitrary: w)
  case Nil
  show ?case by simp
next
  case (Cons a rs)
  from Cons.prems have tl: "\<forall>r\<in>set rs. 0 \<le> width r" by simp
  have "\<not> boxes_intersect (a\<lparr>y := 0, x := w\<rparr>) p"
    if "p \<in> set (solve_v1_loop (w + width a) rs)" for p
  proof -
    from solve_v1_loop_member [OF tl that] have "w + width a \<le> x p" by simp
    then show ?thesis by (simp add: boxes_intersect_def)
  qed
  with Cons.IH [OF tl] show ?case by simp
qed

subsection \<open>The shelves of \<open>solve_v3\<close>\<close>

lemma solve_v3_loop_dims: "map dims (solve_v3_loop n position w rs) = map dims rs"
  by (induction rs arbitrary: position w) (simp_all add: dims_def)

text \<open>
  Where the loop places the rest of the list: on the current shelf below the cursor, or
  on a later shelf, which starts right of the current one.
\<close>

lemma solve_v3_loop_member:
  assumes "\<forall>r\<in>set rs. 0 \<le> width r \<and> 0 \<le> height r" and "0 \<le> w"
    and "p \<in> set (solve_v3_loop n position w rs)"
  shows "(x p = px position \<and> py position \<le> y p) \<or> px position + w \<le> x p"
  using assms
proof (induction rs arbitrary: position w)
  case Nil
  then show ?case by simp
next
  case (Cons a rs)
  from Cons.prems(1) have tl: "\<forall>r\<in>set rs. 0 \<le> width r \<and> 0 \<le> height r"
    and a: "0 \<le> width a" "0 \<le> height a" by simp_all
  show ?case
  proof (cases "py position + height a < n")
    case True
    let ?w' = "if w < width a then width a else w"
    from True Cons.prems(3) consider "p = a\<lparr>y := py position, x := px position\<rparr>"
      | "p \<in> set (solve_v3_loop n (Point (px position) (py position + height a)) ?w' rs)"
      by auto
    then show ?thesis
    proof cases
      case 1
      then show ?thesis by simp
    next
      case 2
      from Cons.prems(2) have "0 \<le> ?w'" by simp
      from Cons.IH [OF tl this 2] a show ?thesis by (auto split: if_splits)
    qed
  next
    case False
    from False Cons.prems(3) consider "p = a\<lparr>y := 0, x := px position + w\<rparr>"
      | "p \<in> set (solve_v3_loop n (Point (px position + w) (height a)) (width a) rs)"
      by auto
    then show ?thesis
    proof cases
      case 1
      then show ?thesis by simp
    next
      case 2
      from Cons.IH [OF tl a(1) 2] a show ?thesis by auto
    qed
  qed
qed

lemma solve_v3_loop_bounds:
  assumes "\<forall>r\<in>set rs. 0 \<le> width r \<and> 0 \<le> height r \<and> height r \<le> n"
    and "0 \<le> w" and "0 \<le> px position" and "0 \<le> py position"
    and "p \<in> set (solve_v3_loop n position w rs)"
  shows "0 \<le> x p \<and> 0 \<le> y p \<and> y p + height p \<le> n"
  using assms
proof (induction rs arbitrary: position w)
  case Nil
  then show ?case by simp
next
  case (Cons a rs)
  from Cons.prems(1) have tl: "\<forall>r\<in>set rs. 0 \<le> width r \<and> 0 \<le> height r \<and> height r \<le> n"
    and a: "0 \<le> width a" "0 \<le> height a" "height a \<le> n" by simp_all
  show ?case
  proof (cases "py position + height a < n")
    case True
    let ?w' = "if w < width a then width a else w"
    let ?pos' = "Point (px position) (py position + height a)"
    from True Cons.prems(5) consider "p = a\<lparr>y := py position, x := px position\<rparr>"
      | "p \<in> set (solve_v3_loop n ?pos' ?w' rs)"
      by auto
    then show ?thesis
    proof cases
      case 1
      with True Cons.prems(3,4) show ?thesis by simp
    next
      case 2
      have "0 \<le> ?w'" "0 \<le> px ?pos'" "0 \<le> py ?pos'"
        using Cons.prems(2,3,4) a by simp_all
      from Cons.IH [OF tl this 2] show ?thesis .
    qed
  next
    case False
    let ?pos' = "Point (px position + w) (height a)"
    from False Cons.prems(5) consider "p = a\<lparr>y := 0, x := px position + w\<rparr>"
      | "p \<in> set (solve_v3_loop n ?pos' (width a) rs)"
      by auto
    then show ?thesis
    proof cases
      case 1
      with Cons.prems(2,3) a show ?thesis by simp
    next
      case 2
      have "0 \<le> width a" "0 \<le> px ?pos'" "0 \<le> py ?pos'"
        using Cons.prems(2,3) a by simp_all
      from Cons.IH [OF tl this 2] show ?thesis .
    qed
  qed
qed

lemma solve_v3_loop_disjoint:
  assumes "\<forall>r\<in>set rs. 0 \<le> width r \<and> 0 \<le> height r" and "0 \<le> w"
  shows "sorted_wrt (\<lambda>a b. \<not> boxes_intersect a b) (solve_v3_loop n position w rs)"
  using assms
proof (induction rs arbitrary: position w)
  case Nil
  show ?case by simp
next
  case (Cons a rs)
  from Cons.prems(1) have tl: "\<forall>r\<in>set rs. 0 \<le> width r \<and> 0 \<le> height r"
    and a: "0 \<le> width a" "0 \<le> height a" by simp_all
  show ?case
  proof (cases "py position + height a < n")
    case True
    let ?w' = "if w < width a then width a else w"
    let ?pos' = "Point (px position) (py position + height a)"
    have w': "0 \<le> ?w'" using Cons.prems(2) by simp
    have "\<not> boxes_intersect (a\<lparr>y := py position, x := px position\<rparr>) p"
      if "p \<in> set (solve_v3_loop n ?pos' ?w' rs)" for p
    proof -
      from solve_v3_loop_member [OF tl w' that]
      have "(x p = px position \<and> py position + height a \<le> y p) \<or> px position + ?w' \<le> x p"
        by simp
      then show ?thesis by (auto simp: boxes_intersect_def split: if_splits)
    qed
    with Cons.IH [OF tl w', of ?pos'] True show ?thesis by simp
  next
    case False
    let ?pos' = "Point (px position + w) (height a)"
    have "\<not> boxes_intersect (a\<lparr>y := 0, x := px position + w\<rparr>) p"
      if "p \<in> set (solve_v3_loop n ?pos' (width a) rs)" for p
    proof -
      from solve_v3_loop_member [OF tl a(1) that]
      have "(x p = px position + w \<and> height a \<le> y p) \<or> px position + w + width a \<le> x p"
        by simp
      then show ?thesis by (auto simp: boxes_intersect_def)
    qed
    with Cons.IH [OF tl a(1), of ?pos'] False show ?thesis by simp
  qed
qed

subsection \<open>Both strategies produce valid layouts\<close>

lemma placed_check_valid:
  assumes b: "\<forall>p\<in>set ps. 0 < width p \<and> 0 < height p \<and> y p + height p \<le> 2 ^ k"
    and d: "sorted_wrt (\<lambda>a b. \<not> boxes_intersect a b) ps"
  shows "check_valid k ps = (True, [])"
proof -
  from b have h: "first_over_height (2 ^ k) ps = None" by (simp add: first_over_height_None)
  have "sorted_wrt (\<lambda>a b. \<not> overlap a b) ps"
  proof (rule sorted_wrt_mono_rel [OF _ d])
    fix a c assume "a \<in> set ps" "c \<in> set ps" "\<not> boxes_intersect a c"
    with b overlap_imp_boxes_intersect [of a c] show "\<not> overlap a c" by blast
  qed
  then have "first_overlap ps = None" by (simp add: first_overlap_None_sorted_wrt)
  with h show ?thesis by (simp add: check_valid_def)
qed

lemma solve_v1_loop_placed:
  assumes "\<forall>r\<in>set rs. 0 < width r \<and> 0 < height r \<and> height r \<le> n"
    and "0 \<le> w" and "p \<in> set (solve_v1_loop w rs)"
  shows "0 \<le> x p \<and> 0 \<le> y p \<and> y p + height p \<le> n \<and> 0 < width p \<and> 0 < height p"
proof -
  from assms(1) have "\<forall>r\<in>set rs. 0 \<le> width r" by fastforce
  from solve_v1_loop_member [OF this assms(3)] assms(1,2) show ?thesis by fastforce
qed

lemma solve_v3_loop_sizes:
  "p \<in> set (solve_v3_loop n position w rs) \<Longrightarrow>
     \<exists>r\<in>set rs. width p = width r \<and> height p = height r"
proof (induction rs arbitrary: position w)
  case Nil
  then show ?case by simp
next
  case (Cons a rs)
  then show ?case by (fastforce split: if_splits)
qed

lemma solve_v3_loop_placed:
  assumes "\<forall>r\<in>set rs. 0 < width r \<and> 0 < height r \<and> height r \<le> n"
    and "p \<in> set (solve_v3_loop n (Point 0 0) 0 rs)"
  shows "0 \<le> x p \<and> 0 \<le> y p \<and> y p + height p \<le> n \<and> 0 < width p \<and> 0 < height p"
proof -
  from assms(1) have "\<forall>r\<in>set rs. 0 \<le> width r \<and> 0 \<le> height r \<and> height r \<le> n"
    by fastforce
  from solve_v3_loop_bounds [OF this _ _ _ assms(2)]
  have "0 \<le> x p \<and> 0 \<le> y p \<and> y p + height p \<le> n" by simp
  moreover from solve_v3_loop_sizes [OF assms(2)] assms(1)
  have "0 < width p \<and> 0 < height p" by fastforce
  ultimately show ?thesis by simp
qed

lemma solve_v1_correct:
  assumes "\<forall>r\<in>set regions. 0 < width r \<and> 0 < height r \<and> height r \<le> 2 ^ k"
  shows "solve_v1 k regions = (solve_v1_loop 0 regions, [])"
    and "\<forall>p\<in>set (solve_v1_loop 0 regions). 0 \<le> x p \<and> 0 \<le> y p \<and> y p + height p \<le> 2 ^ k"
    and "sorted_wrt (\<lambda>a b. \<not> boxes_intersect a b) (solve_v1_loop 0 regions)"
proof -
  let ?ps = "solve_v1_loop 0 regions"
  from assms have nn: "\<forall>r\<in>set regions. 0 \<le> width r" by fastforce
  have pl: "\<forall>p\<in>set ?ps. 0 \<le> x p \<and> 0 \<le> y p \<and> y p + height p \<le> 2 ^ k \<and>
      0 < width p \<and> 0 < height p"
    using solve_v1_loop_placed [OF assms, of 0] by blast
  then show "\<forall>p\<in>set ?ps. 0 \<le> x p \<and> 0 \<le> y p \<and> y p + height p \<le> 2 ^ k" by blast
  show d: "sorted_wrt (\<lambda>a b. \<not> boxes_intersect a b) ?ps"
    by (rule solve_v1_loop_disjoint [OF nn])
  from pl have "\<forall>p\<in>set ?ps. 0 < width p \<and> 0 < height p \<and> y p + height p \<le> 2 ^ k"
    by blast
  from placed_check_valid [OF this d] show "solve_v1 k regions = (?ps, [])"
    by (simp add: solve_v1_def)
qed

lemma solve_v3_correct:
  assumes "\<forall>r\<in>set regions. 0 < width r \<and> 0 < height r \<and> height r \<le> 2 ^ k"
  defines "ps \<equiv> solve_v3_loop (2 ^ k) (Point 0 0) 0 (sorted_by_height regions)"
  shows "solve_v3 k regions = (ps, [])"
    and "\<forall>p\<in>set ps. 0 \<le> x p \<and> 0 \<le> y p \<and> y p + height p \<le> 2 ^ k"
    and "sorted_wrt (\<lambda>a b. \<not> boxes_intersect a b) ps"
proof -
  from assms(1) have s: "\<forall>r\<in>set (sorted_by_height regions).
      0 < width r \<and> 0 < height r \<and> height r \<le> 2 ^ k"
    by (simp add: sorted_by_height_def)
  then have nn: "\<forall>r\<in>set (sorted_by_height regions). 0 \<le> width r \<and> 0 \<le> height r"
    by fastforce
  have pl: "\<forall>p\<in>set ps. 0 \<le> x p \<and> 0 \<le> y p \<and> y p + height p \<le> 2 ^ k \<and>
      0 < width p \<and> 0 < height p"
    unfolding ps_def using solve_v3_loop_placed [OF s] by blast
  then show "\<forall>p\<in>set ps. 0 \<le> x p \<and> 0 \<le> y p \<and> y p + height p \<le> 2 ^ k" by blast
  show d: "sorted_wrt (\<lambda>a b. \<not> boxes_intersect a b) ps"
    unfolding ps_def by (rule solve_v3_loop_disjoint [OF nn]) simp
  from pl have "\<forall>p\<in>set ps. 0 < width p \<and> 0 < height p \<and> y p + height p \<le> 2 ^ k"
    by blast
  from placed_check_valid [OF this d] show "solve_v3 k regions = (ps, [])"
    by (simp add: solve_v3_def ps_def)
qed

lemma solve_v3_dims:
  "mset (map dims (fst (solve_v3 k regions))) = mset (map dims regions)"
  by (simp add: fst_solve_v3 solve_v3_loop_dims sorted_by_height_def)

text \<open>
  Claim C2.  For every \<open>k\<close> and every region list whose widths and heights are positive
  and whose heights are at most \<open>2^k\<close>, each of \<open>solve_v1\<close> and \<open>solve_v3\<close> returns every
  input region (same name, width and height: in the input order for \<open>solve_v1\<close>, as a
  permutation for \<open>solve_v3\<close>) placed with \<open>x \<ge> 0\<close>, \<open>y \<ge> 0\<close> and \<open>y + height \<le> 2^k\<close>, and no
  two regions at different positions of the returned list have intersecting half-open
  boxes.  Moreover the validator run by either strategy on its result prints nothing.
\<close>

theorem C2_layouts_valid:
  assumes "\<forall>r\<in>set regions. 0 < width r \<and> 0 < height r \<and> height r \<le> 2 ^ k"
  shows "(\<forall>p\<in>set (fst (solve_v1 k regions)). 0 \<le> x p \<and> 0 \<le> y p \<and> y p + height p \<le> 2 ^ k) \<and>
    (\<forall>i j. i < length (fst (solve_v1 k regions)) \<and> j < length (fst (solve_v1 k regions)) \<and>
        i \<noteq> j \<longrightarrow>
        \<not> boxes_intersect (fst (solve_v1 k regions) ! i) (fst (solve_v1 k regions) ! j)) \<and>
    map dims (fst (solve_v1 k regions)) = map dims regions \<and>
    snd (solve_v1 k regions) = [] \<and>
    (\<forall>p\<in>set (fst (solve_v3 k regions)). 0 \<le> x p \<and> 0 \<le> y p \<and> y p + height p \<le> 2 ^ k) \<and>
    (\<forall>i j. i < length (fst (solve_v3 k regions)) \<and> j < length (fst (solve_v3 k regions)) \<and>
        i \<noteq> j \<longrightarrow>
        \<not> boxes_intersect (fst (solve_v3 k regions) ! i) (fst (solve_v3 k regions) ! j)) \<and>
    mset (map dims (fst (solve_v3 k regions))) = mset (map dims regions) \<and>
    snd (solve_v3 k regions) = []"
proof -
  note v1 = solve_v1_correct [OF assms]
  note v3 = solve_v3_correct [OF assms]
  have d1: "\<forall>i j. i < length (fst (solve_v1 k regions)) \<and>
      j < length (fst (solve_v1 k regions)) \<and> i \<noteq> j \<longrightarrow>
      \<not> boxes_intersect (fst (solve_v1 k regions) ! i) (fst (solve_v1 k regions) ! j)"
    unfolding v1(1) fst_conv using disjoint_nth [OF v1(3)] by blast
  have d3: "\<forall>i j. i < length (fst (solve_v3 k regions)) \<and>
      j < length (fst (solve_v3 k regions)) \<and> i \<noteq> j \<longrightarrow>
      \<not> boxes_intersect (fst (solve_v3 k regions) ! i) (fst (solve_v3 k regions) ! j)"
    unfolding v3(1) fst_conv using disjoint_nth [OF v3(3)] by blast
  have b1: "\<forall>p\<in>set (fst (solve_v1 k regions)). 0 \<le> x p \<and> 0 \<le> y p \<and> y p + height p \<le> 2 ^ k"
    unfolding v1(1) fst_conv by (rule v1(2))
  have b3: "\<forall>p\<in>set (fst (solve_v3 k regions)). 0 \<le> x p \<and> 0 \<le> y p \<and> y p + height p \<le> 2 ^ k"
    unfolding v3(1) fst_conv by (rule v3(2))
  have m1: "map dims (fst (solve_v1 k regions)) = map dims regions"
    by (simp add: fst_solve_v1 solve_v1_loop_dims)
  have o1: "snd (solve_v1 k regions) = []" by (simp add: v1(1))
  have o3: "snd (solve_v3 k regions) = []" by (simp add: v3(1))
  from b1 d1 m1 o1 b3 d3 solve_v3_dims o3 show ?thesis by blast
qed

theorem C2_layouts_valid_witness:
  "fst (solve_v3 3 [new_Region (Some ''A'') 2 8, new_Region (Some ''B'') 2 3,
                    new_Region (Some ''C'') 1 5]) =
     [\<lparr>name = Some ''A'', width = 2, height = 8, x = 0, y = 0\<rparr>,
      \<lparr>name = Some ''C'', width = 1, height = 5, x = 2, y = 0\<rparr>,
      \<lparr>name = Some ''B'', width = 2, height = 3, x = 3, y = 0\<rparr>] \<and>
   \<not> boxes_intersect \<lparr>name = Some ''C'', width = 1, height = 5, x = 2, y = 0\<rparr>
                     \<lparr>name = Some ''B'', width = 2, height = 3, x = 3, y = 0\<rparr> \<and>
   snd (solve_v3 3 [new_Region (Some ''A'') 2 8, new_Region (Some ''B'') 2 3,
                    new_Region (Some ''C'') 1 5]) = [] \<and>
   snd (solve_v1 3 [new_Region (Some ''A'') 2 8, new_Region (Some ''B'') 2 3,
                    new_Region (Some ''C'') 1 5]) = []"
proof -
  have h: "\<forall>r\<in>set [new_Region (Some ''A'') 2 8, new_Region (Some ''B'') 2 3,
      new_Region (Some ''C'') 1 5]. 0 < width r \<and> 0 < height r \<and> height r \<le> 2 ^ 3"
    by (simp add: new_Region_def)
  have e: "fst (solve_v3 3 [new_Region (Some ''A'') 2 8, new_Region (Some ''B'') 2 3,
                    new_Region (Some ''C'') 1 5]) =
     [\<lparr>name = Some ''A'', width = 2, height = 8, x = 0, y = 0\<rparr>,
      \<lparr>name = Some ''C'', width = 1, height = 5, x = 2, y = 0\<rparr>,
      \<lparr>name = Some ''B'', width = 2, height = 3, x = 3, y = 0\<rparr>]"
    by (simp add: fst_solve_v3 new_Region_def sorted_by_height_def)
  from C2_layouts_valid [OF h] have
    d: "\<forall>i j. i < length (fst (solve_v3 3 [new_Region (Some ''A'') 2 8,
          new_Region (Some ''B'') 2 3, new_Region (Some ''C'') 1 5])) \<and>
        j < length (fst (solve_v3 3 [new_Region (Some ''A'') 2 8,
          new_Region (Some ''B'') 2 3, new_Region (Some ''C'') 1 5])) \<and> i \<noteq> j \<longrightarrow>
        \<not> boxes_intersect
          (fst (solve_v3 3 [new_Region (Some ''A'') 2 8, new_Region (Some ''B'') 2 3,
             new_Region (Some ''C'') 1 5]) ! i)
          (fst (solve_v3 3 [new_Region (Some ''A'') 2 8, new_Region (Some ''B'') 2 3,
             new_Region (Some ''C'') 1 5]) ! j)"
    and o3: "snd (solve_v3 3 [new_Region (Some ''A'') 2 8, new_Region (Some ''B'') 2 3,
                    new_Region (Some ''C'') 1 5]) = []"
    and o1: "snd (solve_v1 3 [new_Region (Some ''A'') 2 8, new_Region (Some ''B'') 2 3,
                    new_Region (Some ''C'') 1 5]) = []"
    by blast+
  from d [unfolded e] have
    "\<not> boxes_intersect \<lparr>name = Some ''C'', width = 1, height = 5, x = 2, y = 0\<rparr>
                     \<lparr>name = Some ''B'', width = 2, height = 3, x = 3, y = 0\<rparr>"
    by (elim allE [of _ 1] allE [of _ 2]) simp
  with e o3 o1 show ?thesis by blast
qed

section \<open>Occupied width of the two layouts\<close>

lemma solve_v1_loop_last:
  "rs \<noteq> [] \<Longrightarrow>
     \<exists>p\<in>set (solve_v1_loop w rs). x p + width p = w + sum_list (map width rs)"
proof (induction rs arbitrary: w)
  case Nil
  then show ?case by simp
next
  case (Cons a rs)
  show ?case
  proof (cases "rs = []")
    case True
    then show ?thesis by simp
  next
    case False
    from Cons.IH [OF False, of "w + width a"] show ?thesis by (auto simp: add.assoc)
  qed
qed

lemma solve_v3_loop_right_edge:
  assumes "\<forall>r\<in>set rs. 0 \<le> width r" and "0 \<le> w"
    and "p \<in> set (solve_v3_loop n position w rs)"
  shows "x p + width p \<le> px position + w + sum_list (map width rs)"
  using assms
proof (induction rs arbitrary: position w)
  case Nil
  then show ?case by simp
next
  case (Cons a rs)
  from Cons.prems(1) have tl: "\<forall>r\<in>set rs. 0 \<le> width r" and a: "0 \<le> width a"
    by simp_all
  from tl have s: "0 \<le> sum_list (map width rs)" by (intro sum_list_nonneg) auto
  show ?case
  proof (cases "py position + height a < n")
    case True
    let ?w' = "if w < width a then width a else w"
    let ?pos' = "Point (px position) (py position + height a)"
    from True Cons.prems(3) consider "p = a\<lparr>y := py position, x := px position\<rparr>"
      | "p \<in> set (solve_v3_loop n ?pos' ?w' rs)"
      by auto
    then show ?thesis
    proof cases
      case 1
      with s Cons.prems(2) show ?thesis by simp
    next
      case 2
      have "0 \<le> ?w'" using Cons.prems(2) by simp
      from Cons.IH [OF tl this 2]
      have "x p + width p \<le> px position + ?w' + sum_list (map width rs)" by simp
      moreover have "?w' \<le> w + width a" using a Cons.prems(2) by simp
      ultimately show ?thesis by simp
    qed
  next
    case False
    let ?pos' = "Point (px position + w) (height a)"
    from False Cons.prems(3) consider "p = a\<lparr>y := 0, x := px position + w\<rparr>"
      | "p \<in> set (solve_v3_loop n ?pos' (width a) rs)"
      by auto
    then show ?thesis
    proof cases
      case 1
      with s show ?thesis by simp
    next
      case 2
      from Cons.IH [OF tl a 2] show ?thesis by simp
    qed
  qed
qed

lemma sum_width_sorted_by_height:
  "sum_list (map width (sorted_by_height rs)) = sum_list (map width rs)"
proof -
  have "mset (map width (sorted_by_height rs)) = mset (map width rs)"
    by (simp add: sorted_by_height_def)
  then have "sum_mset (mset (map width (sorted_by_height rs))) = sum_mset (mset (map width rs))"
    by (rule arg_cong)
  then show ?thesis by (simp only: sum_mset_sum_list)
qed

text \<open>
  Claim C5.  For every \<open>k\<close> and every region list, the occupied width \<open>get_advice\<close> of
  the result of \<open>solve_v3\<close> is at most that of the result of \<open>solve_v1\<close> on the same
  input.  Regions have positive widths; the proof needs only that no width is
  negative, and needs no bound on the heights.
\<close>

theorem C5_width_monotonicity:
  assumes "\<forall>r\<in>set regions. 0 \<le> width r"
  shows "get_advice (fst (solve_v3 k regions)) \<le> get_advice (fst (solve_v1 k regions))"
proof (cases "regions = []")
  case True
  then show ?thesis
    by (simp add: fst_solve_v1 fst_solve_v3 sorted_by_height_def)
next
  case False
  let ?total = "sum_list (map width regions)"
  from assms have nn: "0 \<le> ?total" by (intro sum_list_nonneg) auto
  from assms have s: "\<forall>r\<in>set (sorted_by_height regions). 0 \<le> width r"
    by (simp add: sorted_by_height_def)
  have "x p + width p \<le> ?total"
    if "p \<in> set (solve_v3_loop (2 ^ k) (Point 0 0) 0 (sorted_by_height regions))" for p
    using solve_v3_loop_right_edge [OF s _ that] by (simp add: sum_width_sorted_by_height)
  with nn have "get_advice (fst (solve_v3 k regions)) \<le> ?total"
    by (simp add: fst_solve_v3 get_advice_def get_advice_loop_le)
  also from solve_v1_loop_last [OF False, of 0] obtain p
    where p: "p \<in> set (solve_v1_loop 0 regions)" "x p + width p = ?total"
    by auto
  from get_advice_loop_ge_member [OF p(1), of 0] p(2)
  have "?total \<le> get_advice (fst (solve_v1 k regions))"
    by (simp add: fst_solve_v1 get_advice_def)
  finally show ?thesis .
qed

theorem C5_width_monotonicity_witness:
  "get_advice (fst (solve_v3 3 [new_Region (Some ''A'') 2 3, new_Region (Some ''B'') 2 3,
                                new_Region (Some ''C'') 1 2])) = 3 \<and>
   get_advice (fst (solve_v1 3 [new_Region (Some ''A'') 2 3, new_Region (Some ''B'') 2 3,
                                new_Region (Some ''C'') 1 2])) = 5 \<and>
   get_advice (fst (solve_v3 3 [new_Region (Some ''A'') 2 3, new_Region (Some ''B'') 2 3,
                                new_Region (Some ''C'') 1 2])) \<le>
   get_advice (fst (solve_v1 3 [new_Region (Some ''A'') 2 3, new_Region (Some ''B'') 2 3,
                                new_Region (Some ''C'') 1 2]))"
proof -
  have h: "\<forall>r\<in>set [new_Region (Some ''A'') 2 3, new_Region (Some ''B'') 2 3,
      new_Region (Some ''C'') 1 2]. 0 \<le> width r"
    by (simp add: new_Region_def)
  have "get_advice (fst (solve_v3 3 [new_Region (Some ''A'') 2 3, new_Region (Some ''B'') 2 3,
                                new_Region (Some ''C'') 1 2])) = 3"
    by (simp add: fst_solve_v3 new_Region_def sorted_by_height_def get_advice_def)
  moreover have "get_advice (fst (solve_v1 3 [new_Region (Some ''A'') 2 3,
      new_Region (Some ''B'') 2 3, new_Region (Some ''C'') 1 2])) = 5"
    by (simp add: fst_solve_v1 new_Region_def get_advice_def)
  ultimately show ?thesis using C5_width_monotonicity [OF h, of 3] by blast
qed

text \<open>
  The hypothesis on the widths cannot be dropped: with a negative width, which no region
  of the catalogue has, the inequality fails even when every height is positive and at
  most \<open>2^k\<close>.
\<close>

lemma width_monotonicity_needs_widths:
  "get_advice (fst (solve_v3 3 [new_Region (Some ''A'') 5 1, new_Region (Some ''B'') (- 5) 1,
                                new_Region (Some ''C'') 5 8])) = 10 \<and>
   get_advice (fst (solve_v1 3 [new_Region (Some ''A'') 5 1, new_Region (Some ''B'') (- 5) 1,
                                new_Region (Some ''C'') 5 8])) = 5"
  by (simp add: fst_solve_v3 fst_solve_v1 new_Region_def sorted_by_height_def get_advice_def)

section \<open>The region catalogue\<close>

lemma get_regions_eq:
  "get_regions int_mul gas =
     Inr [\<lparr>name = Some ''evm'', width = 131, height = int_mul gas (9 / 2), x = - 1, y = - 1\<rparr>,
          \<lparr>name = Some ''bytecode'', width = 12, height = int_mul gas (947 / 100),
             x = - 1, y = - 1\<rparr>,
          \<lparr>name = Some ''copy'', width = 26, height = int_mul gas (213 / 10), x = - 1, y = - 1\<rparr>,
          \<lparr>name = Some ''exp'', width = 15, height = int_mul gas (109 / 100), x = - 1, y = - 1\<rparr>,
          \<lparr>name = Some ''keccak'', width = 203, height = int_mul gas (181 / 2),
             x = - 1, y = - 1\<rparr>,
          \<lparr>name = Some ''mpt'', width = 156, height = int_mul gas (19 / 20), x = - 1, y = - 1\<rparr>,
          \<lparr>name = Some ''rw'', width = 63, height = int_mul gas (1133 / 100), x = - 1, y = - 1\<rparr>,
          \<lparr>name = Some ''tx'', width = 10, height = max (int_mul gas (873 / 100)) 295188,
             x = - 1, y = - 1\<rparr>,
          \<lparr>name = Some ''pi'', width = 10, height = int_mul gas (33 / 100), x = - 1, y = - 1\<rparr>]"
  by (simp add: get_regions_def circuits_tables_def get_regions_step_def truthy_def
      truthy_ratio_def dict_get_def table_key_def
      adv_cols_def rows_per_gas_def min_rows_def new_Region_def)

lemma get_regions_step_eq:
  "\<forall>pair\<in>set circuits_tables.
     get_regions_step int_mul gas pair =
       (case pair_ratio pair of
          Some (Some q) \<Rightarrow>
            if q = 0 then Inr [] else Inr [catalogue_region int_mul gas pair q]
        | _ \<Rightarrow> Inr [])"
  by (simp add: circuits_tables_def get_regions_step_def truthy_def
      truthy_ratio_def dict_get_def table_key_def pair_ratio_def pair_name_def
      catalogue_region_def adv_of_def
      adv_cols_def rows_per_gas_def min_rows_def new_Region_def)

lemma get_regions_loop_concat:
  assumes "\<forall>pair\<in>set pairs. get_regions_step int_mul gas pair = Inr (f pair)"
  shows "get_regions_loop int_mul gas pairs regions = Inr (regions @ concat (map f pairs))"
  using assms by (induction pairs arbitrary: regions) simp_all

lemma zero_ratio_names:
  "rows_per_gas nm = Some (Some 0) \<longleftrightarrow> nm \<in> {''block'', ''u8'', ''u10'', ''u16''}"
  by (auto simp: rows_per_gas_def split: if_splits)

lemma emitted_names:
  "list_all (\<lambda>r. \<exists>nm. name r = Some nm \<and> nm \<notin> {''block'', ''u8'', ''u10'', ''u16''} \<and>
        (case rows_per_gas nm of Some (Some q) \<Rightarrow> 0 < q | _ \<Rightarrow> False))
     (projr (get_regions int_mul gas))"
  unfolding get_regions_eq by (simp add: rows_per_gas_def)

text \<open>
  Claim C9.  The claim is that every pair whose name has a defined ratio produces a
  region.  That fails for the ratio 0: \<open>if not rows_gas: continue\<close> skips \<open>0\<close> as it skips
  \<open>None\<close>.  What holds, for every gas budget and whatever the rounding of the product:
  a configured pair whose name (the circuit, or the table when there is no circuit) has
  the ratio \<open>None\<close> or \<open>0\<close> is skipped without an error and yields no region; every other
  configured pair yields one region, named by the circuit, whose height is
  \<open>int(gas * ratio)\<close>, raised to the name's entry of \<open>min_rows\<close> when there is one, and
  whose width is the sum of the advice columns of the circuit and of the table, an
  absent one counting zero; and \<open>get_regions\<close> returns these regions in the order of
  \<open>circuits_tables\<close>.  With the tables of the source this is the list of nine regions
  given last.
\<close>

theorem C9_catalogue:
  "(\<forall>pair\<in>set circuits_tables.
      get_regions_step int_mul gas pair =
        (case pair_ratio pair of
           Some (Some q) \<Rightarrow>
             if q = 0 then Inr [] else Inr [catalogue_region int_mul gas pair q]
         | _ \<Rightarrow> Inr [])) \<and>
   get_regions int_mul gas =
     Inr (concat (map (\<lambda>pair.
            case pair_ratio pair of
              Some (Some q) \<Rightarrow> if q = 0 then [] else [catalogue_region int_mul gas pair q]
            | _ \<Rightarrow> [])
          circuits_tables)) \<and>
   get_regions int_mul gas =
     Inr [\<lparr>name = Some ''evm'', width = 131, height = int_mul gas (9 / 2), x = - 1, y = - 1\<rparr>,
          \<lparr>name = Some ''bytecode'', width = 12, height = int_mul gas (947 / 100),
             x = - 1, y = - 1\<rparr>,
          \<lparr>name = Some ''copy'', width = 26, height = int_mul gas (213 / 10), x = - 1, y = - 1\<rparr>,
          \<lparr>name = Some ''exp'', width = 15, height = int_mul gas (109 / 100), x = - 1, y = - 1\<rparr>,
          \<lparr>name = Some ''keccak'', width = 203, height = int_mul gas (181 / 2),
             x = - 1, y = - 1\<rparr>,
          \<lparr>name = Some ''mpt'', width = 156, height = int_mul gas (19 / 20), x = - 1, y = - 1\<rparr>,
          \<lparr>name = Some ''rw'', width = 63, height = int_mul gas (1133 / 100), x = - 1, y = - 1\<rparr>,
          \<lparr>name = Some ''tx'', width = 10, height = max (int_mul gas (873 / 100)) 295188,
             x = - 1, y = - 1\<rparr>,
          \<lparr>name = Some ''pi'', width = 10, height = int_mul gas (33 / 100), x = - 1, y = - 1\<rparr>]"
proof (intro conjI)
  let ?f = "\<lambda>pair. case pair_ratio pair of
              Some (Some q) \<Rightarrow> if q = 0 then [] else [catalogue_region int_mul gas pair q]
            | _ \<Rightarrow> []"
  show step: "\<forall>pair\<in>set circuits_tables.
      get_regions_step int_mul gas pair =
        (case pair_ratio pair of
           Some (Some q) \<Rightarrow>
             if q = 0 then Inr [] else Inr [catalogue_region int_mul gas pair q]
         | _ \<Rightarrow> Inr [])"
    by (rule get_regions_step_eq)
  have "\<forall>pair\<in>set circuits_tables. get_regions_step int_mul gas pair = Inr (?f pair)"
  proof
    fix pair assume "pair \<in> set circuits_tables"
    with step have "get_regions_step int_mul gas pair =
        (case pair_ratio pair of
           Some (Some q) \<Rightarrow>
             if q = 0 then Inr [] else Inr [catalogue_region int_mul gas pair q]
         | _ \<Rightarrow> Inr [])" by (rule bspec)
    then show "get_regions_step int_mul gas pair = Inr (?f pair)"
      by (simp split: option.splits)
  qed
  from get_regions_loop_concat [OF this, of "[]"]
  show "get_regions int_mul gas = Inr (concat (map ?f circuits_tables))"
    by (simp add: get_regions_def)
  show "get_regions int_mul gas =
     Inr [\<lparr>name = Some ''evm'', width = 131, height = int_mul gas (9 / 2), x = - 1, y = - 1\<rparr>,
          \<lparr>name = Some ''bytecode'', width = 12, height = int_mul gas (947 / 100),
             x = - 1, y = - 1\<rparr>,
          \<lparr>name = Some ''copy'', width = 26, height = int_mul gas (213 / 10), x = - 1, y = - 1\<rparr>,
          \<lparr>name = Some ''exp'', width = 15, height = int_mul gas (109 / 100), x = - 1, y = - 1\<rparr>,
          \<lparr>name = Some ''keccak'', width = 203, height = int_mul gas (181 / 2),
             x = - 1, y = - 1\<rparr>,
          \<lparr>name = Some ''mpt'', width = 156, height = int_mul gas (19 / 20), x = - 1, y = - 1\<rparr>,
          \<lparr>name = Some ''rw'', width = 63, height = int_mul gas (1133 / 100), x = - 1, y = - 1\<rparr>,
          \<lparr>name = Some ''tx'', width = 10, height = max (int_mul gas (873 / 100)) 295188,
             x = - 1, y = - 1\<rparr>,
          \<lparr>name = Some ''pi'', width = 10, height = int_mul gas (33 / 100), x = - 1, y = - 1\<rparr>]"
    by (rule get_regions_eq)
qed

theorem C9_catalogue_witness:
  "(Some ''tx'', Some ''tx'') \<in> set circuits_tables \<and>
   pair_ratio (Some ''tx'', Some ''tx'') = Some (Some (873 / 100)) \<and>
   get_regions_step exact_int_mul 1000 (Some ''tx'', Some ''tx'') =
     Inr [\<lparr>name = Some ''tx'', width = 10, height = 295188, x = - 1, y = - 1\<rparr>]"
proof -
  have m: "(Some ''tx'', Some ''tx'') \<in> set circuits_tables"
    by (simp add: circuits_tables_def)
  have r: "pair_ratio (Some ''tx'', Some ''tx'') = Some (Some (873 / 100))"
    by (simp add: pair_ratio_def pair_name_def truthy_def rows_per_gas_def)
  have c: "catalogue_region exact_int_mul 1000 (Some ''tx'', Some ''tx'') (873 / 100) =
      \<lparr>name = Some ''tx'', width = 10, height = 295188, x = - 1, y = - 1\<rparr>"
    by (simp add: catalogue_region_def adv_of_def adv_cols_def table_key_def pair_name_def
        truthy_def min_rows_def exact_int_mul_def)
  from C9_catalogue [of exact_int_mul 1000]
  have "\<forall>pair\<in>set circuits_tables.
      get_regions_step exact_int_mul 1000 pair =
        (case pair_ratio pair of
           Some (Some q) \<Rightarrow>
             if q = 0 then Inr [] else Inr [catalogue_region exact_int_mul 1000 pair q]
         | _ \<Rightarrow> Inr [])" by (rule conjunct1)
  from bspec [OF this m] r c
  have "get_regions_step exact_int_mul 1000 (Some ''tx'', Some ''tx'') =
     Inr [\<lparr>name = Some ''tx'', width = 10, height = 295188, x = - 1, y = - 1\<rparr>]"
    by simp
  with m r show ?thesis by blast
qed

text \<open>
  The pair \<open>(None, "block")\<close> has the defined ratio \<open>0\<close> and is skipped: it yields no
  region.
\<close>

theorem C9_zero_ratio_counterexample:
  "(None, Some ''block'') \<in> set circuits_tables \<and>
   rows_per_gas ''block'' = Some (Some 0) \<and>
   get_regions_step exact_int_mul 1000 (None, Some ''block'') = Inr [] \<and>
   length (projr (get_regions exact_int_mul 1000)) = 9 \<and>
   length (filter (\<lambda>pair. pair_ratio pair \<noteq> Some None) circuits_tables) = 13"
  by (simp add: circuits_tables_def get_regions_def get_regions_step_def truthy_def
      truthy_ratio_def dict_get_def table_key_def pair_ratio_def pair_name_def
      adv_cols_def rows_per_gas_def min_rows_def new_Region_def)

text \<open>
  Claim C10.  The names of ratio \<open>0\<close> are \<open>block\<close>, \<open>u8\<close>, \<open>u10\<close> and \<open>u16\<close>.  Each is
  configured as a table without a circuit and has an entry in \<open>min_rows\<close>, and for every
  gas budget its iteration of \<open>get_regions\<close> appends no region, so that entry is never
  applied.  A configured pair appends no region exactly when its ratio is \<open>0\<close> or
  \<open>None\<close>.  For every gas budget \<open>get_regions\<close> returns without an error, and every
  region it returns carries a circuit name, not \<open>None\<close>, whose ratio is strictly positive.
\<close>

theorem C10_zero_ratio_skipped:
  "{nm. rows_per_gas nm = Some (Some 0)} = {''block'', ''u8'', ''u10'', ''u16''} \<and>
   (\<forall>nm\<in>{''block'', ''u8'', ''u10'', ''u16''}.
      (None, Some nm) \<in> set circuits_tables \<and> min_rows nm \<noteq> None \<and>
      get_regions_step int_mul gas (None, Some nm) = Inr []) \<and>
   (\<forall>pair\<in>set circuits_tables.
      (get_regions_step int_mul gas pair = Inr []) =
        (pair_ratio pair = Some (Some 0) \<or> pair_ratio pair = Some None)) \<and>
   (\<exists>regions. get_regions int_mul gas = Inr regions \<and>
      (\<forall>r\<in>set regions. \<exists>nm q.
          name r = Some nm \<and> rows_per_gas nm = Some (Some q) \<and> 0 < q \<and>
          nm \<notin> {''block'', ''u8'', ''u10'', ''u16''}))"
proof (intro conjI)
  show "{nm. rows_per_gas nm = Some (Some 0)} = {''block'', ''u8'', ''u10'', ''u16''}"
    using zero_ratio_names by blast
  show "\<forall>nm\<in>{''block'', ''u8'', ''u10'', ''u16''}.
      (None, Some nm) \<in> set circuits_tables \<and> min_rows nm \<noteq> None \<and>
      get_regions_step int_mul gas (None, Some nm) = Inr []"
    by (simp add: circuits_tables_def get_regions_step_def truthy_def
        truthy_ratio_def dict_get_def table_key_def
        adv_cols_def rows_per_gas_def min_rows_def)
  show "\<forall>pair\<in>set circuits_tables.
      (get_regions_step int_mul gas pair = Inr []) =
        (pair_ratio pair = Some (Some 0) \<or> pair_ratio pair = Some None)"
    by (simp add: circuits_tables_def get_regions_step_def truthy_def
        truthy_ratio_def dict_get_def table_key_def pair_ratio_def pair_name_def
        adv_cols_def rows_per_gas_def min_rows_def new_Region_def)
  show "\<exists>regions. get_regions int_mul gas = Inr regions \<and>
      (\<forall>r\<in>set regions. \<exists>nm q.
          name r = Some nm \<and> rows_per_gas nm = Some (Some q) \<and> 0 < q \<and>
          nm \<notin> {''block'', ''u8'', ''u10'', ''u16''})"
  proof (rule exI [of _ "projr (get_regions int_mul gas)"], rule conjI, goal_cases)
    case 1
    show ?case by (simp add: get_regions_eq)
  next
    case 2
    show ?case
    proof (rule ballI)
      fix r assume "r \<in> set (projr (get_regions int_mul gas))"
    with emitted_names [of int_mul gas]
    have "\<exists>nm. name r = Some nm \<and> nm \<notin> {''block'', ''u8'', ''u10'', ''u16''} \<and>
        (case rows_per_gas nm of Some (Some q) \<Rightarrow> 0 < q | _ \<Rightarrow> False)"
      by (simp add: list_all_iff)
    then obtain nm where nm: "name r = Some nm" "nm \<notin> {''block'', ''u8'', ''u10'', ''u16''}"
      "case rows_per_gas nm of Some (Some q) \<Rightarrow> 0 < q | _ \<Rightarrow> False"
      by blast
    from nm(3) obtain q where "rows_per_gas nm = Some (Some q)" "0 < q"
      by (cases "rows_per_gas nm"; cases "the (rows_per_gas nm)") simp_all
    with nm(1,2) show "\<exists>nm q. name r = Some nm \<and> rows_per_gas nm = Some (Some q) \<and> 0 < q \<and>
        nm \<notin> {''block'', ''u8'', ''u10'', ''u16''}"
      by blast
    qed
  qed
qed

theorem C10_zero_ratio_skipped_witness:
  "rows_per_gas ''u16'' = Some (Some 0) \<and> min_rows ''u16'' = Some 65536 \<and>
   (None, Some ''u16'') \<in> set circuits_tables \<and>
   get_regions_step exact_int_mul 1000 (None, Some ''u16'') = Inr []"
proof -
  from C10_zero_ratio_skipped [of exact_int_mul 1000]
  have "\<forall>nm\<in>{''block'', ''u8'', ''u10'', ''u16''}.
      (None, Some nm) \<in> set circuits_tables \<and> min_rows nm \<noteq> None \<and>
      get_regions_step exact_int_mul 1000 (None, Some nm) = Inr []"
    by blast
  then have "(None, Some ''u16'') \<in> set circuits_tables \<and>
      get_regions_step exact_int_mul 1000 (None, Some ''u16'') = Inr []"
    by simp
  moreover have "rows_per_gas ''u16'' = Some (Some 0) \<and> min_rows ''u16'' = Some 65536"
    by (simp add: rows_per_gas_def min_rows_def)
  ultimately show ?thesis by blast
qed

end
